theory Spec2Isabelle
  imports Complex_Main
begin

section \<open>Data model\<close>

text \<open>
  The backend keeps two module-level lists, \<^verbatim>\<open>food_log\<close> and \<^verbatim>\<open>chat_history\<close>.
  A food item is a Python dict that carries at most the six keys written by
  \<^verbatim>\<open>parse_gemini_response\<close>; a key that is not in the dict is \<open>None\<close> here. The two
  text keys hold strings, the four nutrient keys hold the result of \<^verbatim>\<open>float(...)\<close>.
  A float is modelled by the real number it holds (see \<open>round_double\<close> below).
\<close>

record food_item =
  timestamp :: "string option"
  name :: "string option"
  calories :: "real option"
  carbs :: "real option"
  proteins :: "real option"
  fats :: "real option"

text \<open>The empty dict \<^verbatim>\<open>{}\<close>; a dict is truthy exactly when it differs from it.\<close>

definition empty_item :: food_item where
  "empty_item = \<lparr>timestamp = None, name = None, calories = None, carbs = None,
     proteins = None, fats = None\<rparr>"

record chat_turn =
  user :: string
  bot :: string

record summary =
  total_calories :: real
  total_carbs :: real
  total_proteins :: real
  total_fats :: real

record state =
  food_log :: "food_item list"
  chat_history :: "chat_turn list"

datatype error = IndexError | ValueError | HTTPException nat

section \<open>Floating-point numbers\<close>

text \<open>
  Python's \<^verbatim>\<open>float\<close> is the IEEE 754 double: \<^verbatim>\<open>float(...)\<close> of a decimal literal and
  \<^verbatim>\<open>+\<close> both return the double nearest to the exact result, the one with the even
  significand when two are equally near. A finite double is a multiple of \<open>2^-1074\<close>
  whose significand has at most 53 bits. \<open>round_double x\<close> scales \<open>\<bar>x\<bar>\<close> by
  \<open>2^1074\<close>, drops the bits beyond the 53rd by a shift of \<open>s\<close> places, rounds half
  to even and undoes the shift and the scaling. A result of \<open>2^1024\<close> or more has
  left the range of the finite doubles: Python gives \<^verbatim>\<open>inf\<close>, for which the number
  \<open>2^1024\<close> stands here. The log holds what the parser returned, which is never
  negative, so \<^verbatim>\<open>-inf\<close> and \<^verbatim>\<open>nan\<close> do not arise in the sums.
\<close>

function bit_length :: "int \<Rightarrow> nat" where
  "bit_length n = (if n \<le> 0 then 0 else Suc (bit_length (n div 2)))"
  by pat_completeness auto
termination
  by (relation "measure nat") auto

declare bit_length.simps [simp del]

definition round_half_even :: "real \<Rightarrow> int" where
  "round_half_even t =
     (let f = \<lfloor>t\<rfloor>; r = t - of_int f
      in if r < 1 / 2 then f
         else if 1 / 2 < r then f + 1
         else if even f then f else f + 1)"

definition float_scale :: real where
  "float_scale = 2 ^ 1074"

definition float_inf :: real where
  "float_inf = 2 ^ 1024"

definition round_double :: "real \<Rightarrow> real" where
  "round_double x =
     (let t = \<bar>x\<bar> * float_scale;
          s = bit_length \<lfloor>t\<rfloor> - 53;
          y = of_int (round_half_even (t / 2 ^ s)) * 2 ^ s / float_scale
      in sgn x * (if float_inf \<le> y then float_inf else y))"

section \<open>Running totals\<close>

text \<open>\<^verbatim>\<open>d.get(key, default)\<close> on a key that may be absent.\<close>

definition get_or :: "'a option \<Rightarrow> 'a \<Rightarrow> 'a" where
  "get_or v d = (case v of None \<Rightarrow> d | Some x \<Rightarrow> x)"

text \<open>
  Python's \<^verbatim>\<open>sum\<close>: a left-to-right accumulation that starts from \<open>0\<close>, each
  addition rounded to a double.
\<close>

definition py_sum :: "real list \<Rightarrow> real" where
  "py_sum xs = foldl (\<lambda>acc v. round_double (acc + v)) 0 xs"

text \<open>
  The \<^verbatim>\<open>summary\<close> dict, built by the same four lines in \<^verbatim>\<open>analyze_food\<close> and in
  \<^verbatim>\<open>get_food_log\<close>.
\<close>

definition summarize :: "food_item list \<Rightarrow> summary" where
  "summarize entries =
     \<lparr>total_calories = py_sum (map (\<lambda>item. get_or (calories item) 0) entries),
      total_carbs = py_sum (map (\<lambda>item. get_or (carbs item) 0) entries),
      total_proteins = py_sum (map (\<lambda>item. get_or (proteins item) 0) entries),
      total_fats = py_sum (map (\<lambda>item. get_or (fats item) 0) entries)\<rparr>"

text \<open>\<^verbatim>\<open>food_log.extend(food_items)\<close>.\<close>

definition list_extend :: "'a list \<Rightarrow> 'a list \<Rightarrow> 'a list" where
  "list_extend entries items = entries @ items"

section \<open>String primitives\<close>

text \<open>
  A text is the list of its characters; a \<open>string\<close> holds the characters with a code
  point below 256. \<^verbatim>\<open>s.startswith(p)\<close>, \<^verbatim>\<open>sub in s\<close> and \<^verbatim>\<open>s.split(sep)\<close> for
  a non-empty separator (every separator of the source is a non-empty literal).
\<close>

fun startswith :: "string \<Rightarrow> string \<Rightarrow> bool" where
  "startswith s [] = True"
| "startswith [] (p # ps) = False"
| "startswith (c # cs) (p # ps) = (c = p \<and> startswith cs ps)"

fun contains :: "string \<Rightarrow> string \<Rightarrow> bool" where
  "contains [] sub = (sub = [])"
| "contains (c # cs) sub = (startswith (c # cs) sub \<or> contains cs sub)"

fun split_str :: "string \<Rightarrow> string \<Rightarrow> string list" where
  "split_str [] sep = [[]]"
| "split_str (c # cs) sep =
     (if sep \<noteq> [] \<and> startswith (c # cs) sep
      then [] # split_str (drop (length sep - 1) cs) sep
      else (case split_str cs sep of
              [] \<Rightarrow> [[c]]
            | piece # pieces \<Rightarrow> (c # piece) # pieces))"

text \<open>\<^verbatim>\<open>xs[i]\<close> for a non-negative index: out of range raises \<^verbatim>\<open>IndexError\<close>.\<close>

definition index :: "'a list \<Rightarrow> nat \<Rightarrow> error + 'a" where
  "index xs i = (if i < length xs then Inr (xs ! i) else Inl IndexError)"

text \<open>
  \<^verbatim>\<open>s.find(sub)\<close>, the position of the first occurrence (\<open>None\<close> for \<^verbatim>\<open>-1\<close>). The
  source does not call it; it is used to describe what \<open>split_str\<close> returns.
\<close>

fun find_str :: "string \<Rightarrow> string \<Rightarrow> nat option" where
  "find_str [] sub = (if sub = [] then Some 0 else None)"
| "find_str (c # cs) sub =
     (if startswith (c # cs) sub then Some 0 else map_option Suc (find_str cs sub))"

section \<open>Regular expressions and number conversion\<close>

text \<open>
  The four patterns of the source have the shape \<^verbatim>\<open>LABEL ([\d.]+)UNIT\<close>, where the
  label ends in a space and the unit starts with one. Among the characters a
  \<open>string\<close> holds, the only decimal digits are the ten ASCII ones, so \<^verbatim>\<open>[\d.]\<close>
  accepts these and the dot.
  The group is greedy, and no shorter run can be followed by the unit, because the
  character after a shorter run is again a digit or a dot while the unit starts with a
  space. So the pattern matches at a position exactly when the label is there, the longest
  run of digits and dots after it is not empty, and the unit follows the run.
\<close>

definition is_num_char :: "char \<Rightarrow> bool" where
  "is_num_char c = (c \<in> set ''0123456789.'')"

definition match_at :: "string \<Rightarrow> string \<Rightarrow> string \<Rightarrow> string option" where
  "match_at label unit s =
     (if startswith s label
      then (let r = drop (length label) s;
                tok = takeWhile is_num_char r
            in if tok \<noteq> [] \<and> startswith (dropWhile is_num_char r) unit
               then Some tok else None)
      else None)"

text \<open>\<^verbatim>\<open>re.search\<close>: the leftmost position where the pattern matches; returns \<^verbatim>\<open>group(1)\<close>.\<close>

fun re_search :: "string \<Rightarrow> string \<Rightarrow> string \<Rightarrow> string option" where
  "re_search label unit [] = match_at label unit []"
| "re_search label unit (c # cs) =
     (case match_at label unit (c # cs) of
        Some tok \<Rightarrow> Some tok
      | None \<Rightarrow> re_search label unit cs)"

text \<open>
  \<^verbatim>\<open>float(tok)\<close> on a token of digits and dots: it needs at least one digit and at
  most one dot, and raises \<^verbatim>\<open>ValueError\<close> otherwise. The result is the double
  nearest to the number the token denotes.
\<close>

definition digit_val :: "char \<Rightarrow> nat" where
  "digit_val c = of_char c - 48"

definition digits_val :: "string \<Rightarrow> nat" where
  "digits_val ds = foldl (\<lambda>a c. 10 * a + digit_val c) 0 ds"

definition py_float :: "string \<Rightarrow> error + real" where
  "py_float tok =
     (let ip = takeWhile (\<lambda>c. c \<noteq> CHR ''.'') tok;
          r = dropWhile (\<lambda>c. c \<noteq> CHR ''.'') tok;
          fp = tl r
      in if r = [] then
           (if ip = [] then Inl ValueError else Inr (round_double (real (digits_val ip))))
         else if CHR ''.'' \<in> set fp \<or> (ip = [] \<and> fp = []) then Inl ValueError
         else Inr (round_double
                     (real (digits_val ip) + real (digits_val fp) / 10 ^ length fp)))"

section \<open>The response parser\<close>

text \<open>
  The name of a header line:
  \<^verbatim>\<open>line.split("Item: ")[1].split(" - ")[0]\<close> inside \<^verbatim>\<open>try\<close>, with
  \<^verbatim>\<open>except IndexError\<close> giving \<^verbatim>\<open>"Unknown"\<close>.
\<close>

definition item_name :: "string \<Rightarrow> string" where
  "item_name line =
     (case index (split_str line ''Item: '') 1 of
        Inl e \<Rightarrow> ''Unknown''
      | Inr seg \<Rightarrow>
          (case index (split_str seg '' - '') 0 of
             Inl e \<Rightarrow> ''Unknown''
           | Inr nm \<Rightarrow> nm))"

text \<open>
  The variables of the loop. \<open>ticks\<close> counts the calls of \<^verbatim>\<open>datetime.now()\<close> made so
  far: the clock is a parameter \<open>now\<close> of the parser, and \<open>now k\<close> is the formatted
  time that call number \<open>k\<close> returns.
\<close>

record parser_state =
  food_items :: "food_item list"
  current_item :: food_item
  ticks :: nat

text \<open>\<^verbatim>\<open>if current_item: food_items.append(current_item)\<close>.\<close>

definition flush :: "food_item list \<Rightarrow> food_item \<Rightarrow> food_item list" where
  "flush items cur = (if cur \<noteq> empty_item then items @ [cur] else items)"

text \<open>The body of the \<^verbatim>\<open>for\<close> loop: one \<^verbatim>\<open>if\<close>/\<^verbatim>\<open>elif\<close> chain per line.\<close>

definition process_line ::
  "(nat \<Rightarrow> string) \<Rightarrow> string \<Rightarrow> parser_state \<Rightarrow> error + parser_state" where
  "process_line now line st =
     (if startswith line ''- Item:'' then
        Inr \<lparr>food_items = flush (food_items st) (current_item st),
             current_item = \<lparr>timestamp = Some (now (ticks st)), name = Some (item_name line),
                calories = None, carbs = None, proteins = None, fats = None\<rparr>,
             ticks = Suc (ticks st)\<rparr>
      else if contains line ''Calories:'' then
        (case re_search ''Calories: '' '' kcal'' line of
           None \<Rightarrow> Inr st
         | Some tok \<Rightarrow>
             (case py_float tok of
                Inl e \<Rightarrow> Inl e
              | Inr v \<Rightarrow> Inr (st\<lparr>current_item := (current_item st)\<lparr>calories := Some v\<rparr>\<rparr>)))
      else if contains line ''Carbs:'' then
        (case re_search ''Carbs: '' '' g'' line of
           None \<Rightarrow> Inr st
         | Some tok \<Rightarrow>
             (case py_float tok of
                Inl e \<Rightarrow> Inl e
              | Inr v \<Rightarrow> Inr (st\<lparr>current_item := (current_item st)\<lparr>carbs := Some v\<rparr>\<rparr>)))
      else if contains line ''Proteins:'' then
        (case re_search ''Proteins: '' '' g'' line of
           None \<Rightarrow> Inr st
         | Some tok \<Rightarrow>
             (case py_float tok of
                Inl e \<Rightarrow> Inl e
              | Inr v \<Rightarrow> Inr (st\<lparr>current_item := (current_item st)\<lparr>proteins := Some v\<rparr>\<rparr>)))
      else if contains line ''Fats:'' then
        (case re_search ''Fats: '' '' g'' line of
           None \<Rightarrow> Inr st
         | Some tok \<Rightarrow>
             (case py_float tok of
                Inl e \<Rightarrow> Inl e
              | Inr v \<Rightarrow> Inr (st\<lparr>current_item := (current_item st)\<lparr>fats := Some v\<rparr>\<rparr>)))
      else Inr st)"

text \<open>The loop over the lines; an exception leaves it at once.\<close>

fun parse_loop ::
  "(nat \<Rightarrow> string) \<Rightarrow> string list \<Rightarrow> parser_state \<Rightarrow> error + parser_state" where
  "parse_loop now [] st = Inr st"
| "parse_loop now (line # lines) st =
     (case process_line now line st of
        Inl e \<Rightarrow> Inl e
      | Inr st' \<Rightarrow> parse_loop now lines st')"

text \<open>
  The parser: split the text into lines, run the loop from an empty list and an empty
  dict, and append the item under construction if it is not empty.
\<close>

definition parse_gemini_response :: "(nat \<Rightarrow> string) \<Rightarrow> string \<Rightarrow> error + food_item list" where
  "parse_gemini_response now response_text =
     (let lines = split_str response_text [CHR 0x0A]
      in case parse_loop now lines \<lparr>food_items = [], current_item = empty_item, ticks = 0\<rparr> of
           Inl e \<Rightarrow> Inl e
         | Inr st \<Rightarrow> Inr (flush (food_items st) (current_item st)))"

section \<open>The endpoints\<close>

text \<open>
  Each endpoint takes the stored state and returns its answer with the state it leaves.
  What comes from outside is a parameter: the uploaded file (its content type, which
  may be missing, and the length of its content), and \<open>reply\<close>, the outcome of the
  calls to the generative model (\<open>None\<close> when they raise, otherwise
  \<^verbatim>\<open>response.text\<close>). Every exception raised inside an endpoint, its own
  \<^verbatim>\<open>HTTPException(400)\<close> included, reaches the \<^verbatim>\<open>except Exception\<close> clause and
  leaves as \<^verbatim>\<open>HTTPException(500)\<close>.
\<close>

record upload =
  content_type :: "string option"
  content_len :: nat

record analysis =
  analysis_text :: string
  new_items :: "food_item list"
  full_log :: "food_item list"
  totals :: summary

definition analyze_food ::
  "(nat \<Rightarrow> string) \<Rightarrow> upload \<Rightarrow> string option \<Rightarrow> state \<Rightarrow> (error + analysis) \<times> state" where
  "analyze_food now file reply st =
     (case content_type file of
        None \<Rightarrow> (Inl (HTTPException 500), st)
      | Some ct \<Rightarrow>
          if \<not> startswith ct ''image/'' then (Inl (HTTPException 500), st)
          else if content_len file > 5 * 1024 * 1024 then (Inl (HTTPException 500), st)
          else (case reply of
                  None \<Rightarrow> (Inl (HTTPException 500), st)
                | Some text \<Rightarrow>
                    if text = [] then (Inl (HTTPException 500), st)
                    else (case parse_gemini_response now text of
                            Inl e \<Rightarrow> (Inl (HTTPException 500), st)
                          | Inr items \<Rightarrow>
                              (let st' = st\<lparr>food_log := list_extend (food_log st) items\<rparr>
                               in (Inr \<lparr>analysis_text = text, new_items = items,
                                        full_log = food_log st',
                                        totals = summarize (food_log st')\<rparr>, st')))))"

text \<open>The characters \<^verbatim>\<open>str.strip()\<close> removes, among those a \<open>string\<close> holds.\<close>

definition is_space :: "char \<Rightarrow> bool" where
  "is_space c = (of_char c \<in> {9, 10, 11, 12, 13, 28, 29, 30, 31, 32, 133, 160 :: nat})"

definition chat_with_nutritionist ::
  "string \<Rightarrow> string option \<Rightarrow> state \<Rightarrow> (error + string) \<times> state" where
  "chat_with_nutritionist message reply st =
     (if list_all is_space message then (Inl (HTTPException 500), st)
      else (case reply of
              None \<Rightarrow> (Inl (HTTPException 500), st)
            | Some text \<Rightarrow>
                if text = [] then (Inl (HTTPException 500), st)
                else (Inr text,
                      st\<lparr>chat_history := chat_history st @ [\<lparr>user = message, bot = text\<rparr>]\<rparr>)))"

definition get_food_log :: "state \<Rightarrow> (error + food_item list \<times> summary) \<times> state" where
  "get_food_log st = (Inr (food_log st, summarize (food_log st)), st)"

definition get_chat_history :: "state \<Rightarrow> (error + chat_turn list) \<times> state" where
  "get_chat_history st = (Inr (chat_history st), st)"

section \<open>Notions used to state the properties\<close>

text \<open>
  The four nutrient keys, with the label and the unit of the pattern that the parser
  searches for each, the reader and the writer of a key in an item, and the reader of
  its total in a summary.
\<close>

datatype nutrient = Calories | Carbs | Proteins | Fats

fun label :: "nutrient \<Rightarrow> string" where
  "label Calories = ''Calories: ''"
| "label Carbs = ''Carbs: ''"
| "label Proteins = ''Proteins: ''"
| "label Fats = ''Fats: ''"

fun unit_of :: "nutrient \<Rightarrow> string" where
  "unit_of Calories = '' kcal''"
| "unit_of Carbs = '' g''"
| "unit_of Proteins = '' g''"
| "unit_of Fats = '' g''"

fun nutrient_of :: "nutrient \<Rightarrow> food_item \<Rightarrow> real option" where
  "nutrient_of Calories item = calories item"
| "nutrient_of Carbs item = carbs item"
| "nutrient_of Proteins item = proteins item"
| "nutrient_of Fats item = fats item"

fun set_nutrient :: "nutrient \<Rightarrow> real \<Rightarrow> food_item \<Rightarrow> food_item" where
  "set_nutrient Calories v item = item\<lparr>calories := Some v\<rparr>"
| "set_nutrient Carbs v item = item\<lparr>carbs := Some v\<rparr>"
| "set_nutrient Proteins v item = item\<lparr>proteins := Some v\<rparr>"
| "set_nutrient Fats v item = item\<lparr>fats := Some v\<rparr>"

fun total_of :: "nutrient \<Rightarrow> summary \<Rightarrow> real" where
  "total_of Calories s = total_calories s"
| "total_of Carbs s = total_carbs s"
| "total_of Proteins s = total_proteins s"
| "total_of Fats s = total_fats s"

definition pattern_matches :: "nutrient \<Rightarrow> string \<Rightarrow> bool" where
  "pattern_matches f line = (re_search (label f) (unit_of f) line \<noteq> None)"

definition is_header :: "string \<Rightarrow> bool" where
  "is_header line = startswith line ''- Item:''"

text \<open>
  The token that a line which is not a header hands to \<^verbatim>\<open>float\<close>, if any: the group
  of the pattern of the first key, in the order of the \<^verbatim>\<open>elif\<close> chain, whose marker
  the line contains.
\<close>

definition nutrient_token :: "string \<Rightarrow> string option" where
  "nutrient_token line =
     (if contains line ''Calories:'' then re_search ''Calories: '' '' kcal'' line
      else if contains line ''Carbs:'' then re_search ''Carbs: '' '' g'' line
      else if contains line ''Proteins:'' then re_search ''Proteins: '' '' g'' line
      else if contains line ''Fats:'' then re_search ''Fats: '' '' g'' line
      else None)"

text \<open>
  A well-formed block: its first line is a header, and every token that a later line
  hands to \<^verbatim>\<open>float\<close> is a number \<^verbatim>\<open>float\<close> accepts. A block in which every line
  is a header line of the documented shape is one.
\<close>

definition well_formed_block :: "string \<Rightarrow> bool" where
  "well_formed_block text =
     (case split_str text [CHR 0x0A] of
        [] \<Rightarrow> False
      | first # rest \<Rightarrow>
          is_header first \<and>
          list_all (\<lambda>line. is_header line \<or>
                      (case nutrient_token line of
                         None \<Rightarrow> True
                       | Some tok \<Rightarrow> py_float tok \<noteq> Inl ValueError)) rest)"

text \<open>
  The lines of each record. \<open>groups\<close> cuts the lines before every header: its first
  element is the run of lines before the first header, each later element is a header
  with the lines up to the next one. The run before the first header gives a record only
  if one of its lines sets a key; every header gives one.
\<close>

fun groups :: "string list \<Rightarrow> string list list" where
  "groups [] = [[]]"
| "groups (line # lines) =
     (case groups lines of
        [] \<Rightarrow> [[line]]
      | g # gs \<Rightarrow> if is_header line then [] # (line # g) # gs else (line # g) # gs)"

definition record_groups :: "string list \<Rightarrow> string list list" where
  "record_groups lines =
     (case groups lines of
        [] \<Rightarrow> []
      | g # gs \<Rightarrow> (if list_ex (\<lambda>line. nutrient_token line \<noteq> None) g then [g] else []) @ gs)"

text \<open>
  The finite doubles: a significand of at most 53 bits times a power of two that is at
  least \<open>2^-1074\<close>, below \<open>2^1024\<close> in absolute value.
\<close>

definition is_double :: "real \<Rightarrow> bool" where
  "is_double x =
     (\<exists>(m::int) (k::nat).
        \<bar>m\<bar> < 2 ^ 53 \<and> x = of_int m * 2 ^ k / float_scale \<and> \<bar>x\<bar> < float_inf)"

text \<open>What the lines of a record say about its keys, and the bound on their values.\<close>

definition lacks_unmatched :: "food_item \<Rightarrow> string list \<Rightarrow> bool" where
  "lacks_unmatched item g =
     (\<forall>f. (\<forall>line\<in>set g. \<not> pattern_matches f line) \<longrightarrow> nutrient_of f item = None)"

definition nonneg_item :: "food_item \<Rightarrow> bool" where
  "nonneg_item item = (\<forall>f v. nutrient_of f item = Some v \<longrightarrow> 0 \<le> v)"

section \<open>Fixed inputs for the examples\<close>

definition clock0 :: "nat \<Rightarrow> string" where
  "clock0 k = ''2025-01-01 12:00:00''"

definition apple_banana :: string where
  "apple_banana =
     ''- Item: Apple - Calories: 95 kcal, Carbs: 25 g, Proteins: 0.5 g, Fats: 0.3 g'' @
     [CHR 0x0A] @
     ''- Item: Banana - Calories: 105 kcal, Carbs: 27 g, Proteins: 1.3 g, Fats: 0.4 g''"

definition oats_block :: string where
  "oats_block =
     ''- Item: Oats - one bowl'' @ [CHR 0x0A] @
     ''  Calories: 150.5 kcal'' @ [CHR 0x0A] @
     ''  Carbs: 27 g'' @ [CHR 0x0A] @
     ''- Item: Egg - boiled'' @ [CHR 0x0A] @
     ''  Proteins: 6.5 g''"

section \<open>Rounding to a double\<close>

lemma bit_length_nonpos [simp]: "n \<le> 0 \<Longrightarrow> bit_length n = 0"
  by (subst bit_length.simps) simp

lemma bit_length_pos: "0 < n \<Longrightarrow> bit_length n = Suc (bit_length (n div 2))"
  by (subst bit_length.simps) simp

lemma bit_length_le: "n < 2 ^ j \<Longrightarrow> bit_length n \<le> j"
proof (induction j arbitrary: n)
  case 0
  then show ?case by simp
next
  case (Suc j)
  show ?case
  proof (cases "0 < n")
    case True
    from Suc.prems have "n div 2 < 2 ^ j"
      by simp
    then have "bit_length (n div 2) \<le> j"
      by (rule Suc.IH)
    with True show ?thesis
      by (simp add: bit_length_pos)
  next
    case False
    then show ?thesis by simp
  qed
qed



lemma round_half_even_int [simp]: "round_half_even (of_int i) = i"
  by (simp add: round_half_even_def)

lemma round_half_even_nonneg: "0 \<le> t \<Longrightarrow> 0 \<le> round_half_even t"
  by (auto simp: round_half_even_def Let_def)


lemma float_scale_pos [simp]: "0 < float_scale"
  by (simp add: float_scale_def)

lemma float_scale_simps [simp]: "float_scale \<noteq> 0" "\<bar>float_scale\<bar> = float_scale"
  by (simp_all add: float_scale_def)

lemma round_double_0 [simp]: "round_double 0 = 0"
  by (simp add: round_double_def)

lemma round_double_nonneg: "0 \<le> x \<Longrightarrow> 0 \<le> round_double x"
proof -
  assume x: "0 \<le> x"
  have inf: "0 \<le> float_inf"
    by (simp add: float_inf_def)
  have "0 \<le> of_int (round_half_even (\<bar>x\<bar> * float_scale / 2 ^ s)) * 2 ^ s / float_scale" for s :: nat
    by (intro divide_nonneg_nonneg mult_nonneg_nonneg) (simp_all add: round_half_even_nonneg less_imp_le)
  with x inf show ?thesis
    by (simp add: round_double_def Let_def sgn_real_def)
qed


text \<open>A float is its own rounding.\<close>

lemma round_double_exact_nonneg:
  fixes m :: int and k :: nat
  assumes m: "0 \<le> m" "m < 2 ^ 53" and small: "of_int m * 2 ^ k / float_scale < float_inf"
  shows "round_double (of_int m * 2 ^ k / float_scale) = of_int m * 2 ^ k / float_scale"
proof -
  let ?x = "of_int m * 2 ^ k / float_scale :: real"
  have x0: "0 \<le> ?x"
    using m by (simp add: less_imp_le)
  have "\<bar>?x\<bar> = ?x"
    using x0 by (rule abs_of_nonneg)
  moreover have "?x * float_scale = of_int (m * 2 ^ k)"
    by simp
  ultimately have t: "\<bar>?x\<bar> * float_scale = of_int (m * 2 ^ k)"
    by (simp only:)
  have fl: "\<lfloor>\<bar>?x\<bar> * float_scale\<rfloor> = m * 2 ^ k"
    by (simp only: t floor_of_int)
  define s where "s = bit_length (m * 2 ^ k) - 53"
  have "m * 2 ^ k < 2 ^ 53 * 2 ^ k"
    using m by simp
  then have "m * 2 ^ k < 2 ^ (53 + k)"
    by (simp add: power_add)
  then have "bit_length (m * 2 ^ k) \<le> 53 + k"
    by (rule bit_length_le)
  then have sk: "s \<le> k"
    by (simp add: s_def)
  then obtain d where d: "k = s + d"
    using le_Suc_ex by blast
  have "(of_int (m * 2 ^ k) :: real) / 2 ^ s = of_int (m * 2 ^ d)"
    by (simp add: d power_add)
  then have r: "round_half_even (of_int (m * 2 ^ k) / 2 ^ s) = m * 2 ^ d"
    by (simp only: round_half_even_int)
  have y: "(of_int (m * 2 ^ d) :: real) * 2 ^ s / float_scale = ?x"
    by (simp add: d power_add)
  have "round_double ?x = sgn ?x * (if float_inf \<le> ?x then float_inf else ?x)"
    unfolding round_double_def Let_def
    by (simp only: t floor_of_int s_def [symmetric] r y)
  also have "\<dots> = sgn ?x * ?x"
    using small by simp
  also have "\<dots> = ?x"
    using x0 by (simp add: sgn_real_def)
  finally show ?thesis .
qed

lemma round_double_minus: "round_double (- x) = - round_double x"
  by (simp add: round_double_def Let_def sgn_real_def)

lemma round_double_exact: "is_double x \<Longrightarrow> round_double x = x"
proof -
  assume "is_double x"
  then obtain m :: int and k :: nat where
    m: "\<bar>m\<bar> < 2 ^ 53" and x: "x = of_int m * 2 ^ k / float_scale" and b: "\<bar>x\<bar> < float_inf"
    unfolding is_double_def by blast
  show ?thesis
  proof (cases "0 \<le> m")
    case True
    with m b show ?thesis
      unfolding x by (intro round_double_exact_nonneg) simp_all
  next
    case False
    then have neg: "0 \<le> - m" "- m < 2 ^ 53"
      using m by simp_all
    have "- x = of_int (- m) * 2 ^ k / float_scale"
      by (simp add: x)
    moreover have "of_int (- m) * 2 ^ k / float_scale < float_inf"
      using b False unfolding x by (simp add: abs_if split: if_splits)
    ultimately have "round_double (- x) = - x"
      using round_double_exact_nonneg [OF neg, of k] by simp
    then show ?thesis
      by (simp add: round_double_minus)
  qed
qed






lemma is_double_of_int: "\<bar>m\<bar> < 2 ^ 53 \<Longrightarrow> is_double (of_int m)"
proof -
  assume m: "\<bar>m\<bar> < 2 ^ 53"
  have "(of_int m :: real) = of_int m * 2 ^ 1074 / float_scale"
    by (simp add: float_scale_def)
  moreover have "\<bar>of_int m :: real\<bar> < float_inf"
  proof -
    have "\<bar>of_int m :: real\<bar> = of_int \<bar>m\<bar>"
      by simp
    also have "\<dots> < of_int (2 ^ 53)"
      using m by (simp only: of_int_less_iff)
    also have "\<dots> < float_inf"
      by (simp add: float_inf_def)
    finally show ?thesis .
  qed
  ultimately show ?thesis
    using m unfolding is_double_def by blast
qed

lemma round_double_numeral [simp]:
  "(numeral w :: int) < 2 ^ 53 \<Longrightarrow> round_double (numeral w) = numeral w"
  using round_double_exact [OF is_double_of_int [of "numeral w"]] by simp

lemma is_double_dyadic:
  assumes "\<bar>m\<bar> < 2 ^ 53" and "j \<le> 1074"
  shows "is_double (of_int m / 2 ^ j)"
proof -
  from assms(2) obtain d where d: "1074 = j + d"
    using le_Suc_ex by blast
  have sc: "float_scale = 2 ^ j * 2 ^ d"
    unfolding float_scale_def d by (rule power_add)
  have "(of_int m / 2 ^ j :: real) = of_int m * 2 ^ d / float_scale"
    by (simp add: sc)
  moreover have "\<bar>of_int m / 2 ^ j :: real\<bar> < float_inf"
  proof -
    have "\<bar>of_int m / 2 ^ j :: real\<bar> \<le> \<bar>of_int m\<bar>"
      by (simp add: divide_le_eq mult_le_cancel_left1)
    also have "\<dots> < float_inf"
      using is_double_of_int [OF assms(1)] unfolding is_double_def by blast
    finally show ?thesis .
  qed
  ultimately show ?thesis
    using assms(1) unfolding is_double_def by blast
qed

lemma round_double_dyadic:
  "\<bar>m\<bar> < 2 ^ 53 \<Longrightarrow> j \<le> 1074 \<Longrightarrow> round_double (of_int m / 2 ^ j) = of_int m / 2 ^ j"
  by (intro round_double_exact is_double_dyadic)

section \<open>Evaluation and summation lemmas\<close>

lemmas eval_defs = parse_gemini_response_def Let_def process_line_def flush_def
  empty_item_def item_name_def index_def match_at_def is_num_char_def py_float_def
  digits_val_def digit_val_def

lemma round_double_halves:
  "round_double (301 / 2) = 301 / 2" "round_double (13 / 2) = 13 / 2"
  using round_double_dyadic [of 301 1] round_double_dyadic [of 13 1] by simp_all



lemma total_of_summarize:
  "total_of f (summarize entries) =
     py_sum (map (\<lambda>item. case nutrient_of f item of None \<Rightarrow> 0 | Some v \<Rightarrow> v) entries)"
  by (cases f) (simp_all add: summarize_def get_or_def)

lemma all_nutrients: "(\<forall>f. P f) \<longleftrightarrow> P Calories \<and> P Carbs \<and> P Proteins \<and> P Fats"
  by (metis nutrient.exhaust)

section \<open>Splitting and the name of a header\<close>

lemma find_str_first:
  "find_str s sub = Some i \<Longrightarrow>
   startswith (drop i s) sub \<and> (\<forall>j<i. \<not> startswith (drop j s) sub)"
proof (induction s arbitrary: i)
  case Nil
  then show ?case by (simp split: if_splits)
next
  case (Cons c cs)
  show ?case
  proof (cases "startswith (c # cs) sub")
    case True
    with Cons.prems show ?thesis by simp
  next
    case False
    with Cons.prems obtain i' where i': "find_str cs sub = Some i'" and i: "i = Suc i'"
      by auto
    from Cons.IH [OF i'] False show ?thesis
      by (auto simp: i less_Suc_eq_0_disj)
  qed
qed

lemma split_str_nonempty: "split_str s sep \<noteq> []"
  by (induction s) (auto split: list.splits)

lemma split_str_find:
  "sep \<noteq> [] \<Longrightarrow>
   split_str s sep =
     (case find_str s sep of
        None \<Rightarrow> [s]
      | Some i \<Rightarrow> take i s # split_str (drop (i + length sep) s) sep)"
proof (induction s)
  case Nil
  then show ?case by (cases sep) auto
next
  case (Cons c cs)
  show ?case
  proof (cases "startswith (c # cs) sep")
    case True
    with Cons.prems show ?thesis
      by (cases sep) auto
  next
    case False
    with Cons show ?thesis
      by (auto split: option.splits list.splits)
  qed
qed

lemma hd_split_str:
  "sep \<noteq> [] \<Longrightarrow>
   hd (split_str s sep) = (case find_str s sep of None \<Rightarrow> s | Some i \<Rightarrow> take i s)"
  by (subst split_str_find) (auto split: option.splits)

lemma split_str_Some:
  "sep \<noteq> [] \<Longrightarrow> find_str s sep = Some i \<Longrightarrow>
   split_str s sep = take i s # split_str (drop (i + length sep) s) sep"
  by (subst split_str_find) simp_all

lemma split_str_None: "sep \<noteq> [] \<Longrightarrow> find_str s sep = None \<Longrightarrow> split_str s sep = [s]"
  by (subst split_str_find) simp_all

lemma index_0_split: "index (split_str s sep) 0 = Inr (hd (split_str s sep))"
  using split_str_nonempty [of s sep] by (cases "split_str s sep") (simp_all add: index_def)

lemma item_name_find:
  "item_name line =
     (case find_str line ''Item: '' of
        None \<Rightarrow> ''Unknown''
      | Some i \<Rightarrow>
          (let rest = drop (i + 6) line;
               seg = (case find_str rest ''Item: '' of None \<Rightarrow> rest | Some j \<Rightarrow> take j rest)
           in case find_str seg '' - '' of None \<Rightarrow> seg | Some k \<Rightarrow> take k seg))"
proof (cases "find_str line ''Item: ''")
  case None
  then have "split_str line ''Item: '' = [line]"
    by (intro split_str_None) simp_all
  with None show ?thesis
    by (simp add: item_name_def index_def)
next
  case (Some i)
  define rest where "rest = drop (i + 6) line"
  have "split_str line ''Item: '' =
          take i line # split_str (drop (i + length ''Item: '') line) ''Item: ''"
    using Some by (intro split_str_Some) simp_all
  moreover have "length ''Item: '' = (6::nat)"
    by simp
  then have "drop (i + length ''Item: '') line = rest"
    by (simp only: rest_def)
  ultimately have s: "split_str line ''Item: '' = take i line # split_str rest ''Item: ''"
    by (simp only:)
  have i1: "index (split_str line ''Item: '') 1 = Inr (hd (split_str rest ''Item: ''))"
    using split_str_nonempty [of rest "''Item: ''"]
    by (cases "split_str rest ''Item: ''") (simp_all add: s index_def)
  have seg: "hd (split_str rest ''Item: '') =
               (case find_str rest ''Item: '' of None \<Rightarrow> rest | Some j \<Rightarrow> take j rest)"
    by (rule hd_split_str) simp
  have nm: "hd (split_str seg '' - '') =
              (case find_str seg '' - '' of None \<Rightarrow> seg | Some k \<Rightarrow> take k seg)" for seg
    by (rule hd_split_str) simp
  have "item_name line = hd (split_str (hd (split_str rest ''Item: '')) '' - '')"
    by (simp only: item_name_def i1 index_0_split sum.case)
  also have "\<dots> = (let seg = (case find_str rest ''Item: '' of None \<Rightarrow> rest | Some j \<Rightarrow> take j rest)
           in case find_str seg '' - '' of None \<Rightarrow> seg | Some k \<Rightarrow> take k seg)"
    by (simp only: seg nm Let_def)
  finally show ?thesis
    by (simp only: Some option.case rest_def Let_def)
qed

section \<open>One line of the loop\<close>

lemma process_line_header:
  "is_header line \<Longrightarrow>
   process_line now line st =
     Inr \<lparr>food_items = flush (food_items st) (current_item st),
          current_item = \<lparr>timestamp = Some (now (ticks st)), name = Some (item_name line),
             calories = None, carbs = None, proteins = None, fats = None\<rparr>,
          ticks = Suc (ticks st)\<rparr>"
  by (simp add: process_line_def is_header_def)

lemma process_line_no_token:
  "\<not> is_header line \<Longrightarrow> nutrient_token line = None \<Longrightarrow> process_line now line st = Inr st"
  by (simp add: process_line_def is_header_def nutrient_token_def split: if_splits)

lemma process_line_token:
  assumes "\<not> is_header line" and "nutrient_token line = Some tok"
  shows "\<exists>f. re_search (label f) (unit_of f) line = Some tok \<and>
             process_line now line st =
               (case py_float tok of
                  Inl e \<Rightarrow> Inl e
                | Inr v \<Rightarrow> Inr (st\<lparr>current_item := set_nutrient f v (current_item st)\<rparr>))"
proof -
  consider (a) "contains line ''Calories:''"
    | (b) "\<not> contains line ''Calories:''" "contains line ''Carbs:''"
    | (c) "\<not> contains line ''Calories:''" "\<not> contains line ''Carbs:''"
          "contains line ''Proteins:''"
    | (d) "\<not> contains line ''Calories:''" "\<not> contains line ''Carbs:''"
          "\<not> contains line ''Proteins:''" "contains line ''Fats:''"
    | (e) "\<not> contains line ''Calories:''" "\<not> contains line ''Carbs:''"
          "\<not> contains line ''Proteins:''" "\<not> contains line ''Fats:''"
    by blast
  then show ?thesis
  proof cases
    case a
    with assms have "re_search (label Calories) (unit_of Calories) line = Some tok \<and>
             process_line now line st =
               (case py_float tok of
                  Inl e \<Rightarrow> Inl e
                | Inr v \<Rightarrow> Inr (st\<lparr>current_item := set_nutrient Calories v (current_item st)\<rparr>))"
      by (simp add: process_line_def is_header_def nutrient_token_def split: sum.splits)
    then show ?thesis ..
  next
    case b
    with assms have "re_search (label Carbs) (unit_of Carbs) line = Some tok \<and>
             process_line now line st =
               (case py_float tok of
                  Inl e \<Rightarrow> Inl e
                | Inr v \<Rightarrow> Inr (st\<lparr>current_item := set_nutrient Carbs v (current_item st)\<rparr>))"
      by (simp add: process_line_def is_header_def nutrient_token_def split: sum.splits)
    then show ?thesis ..
  next
    case c
    with assms have "re_search (label Proteins) (unit_of Proteins) line = Some tok \<and>
             process_line now line st =
               (case py_float tok of
                  Inl e \<Rightarrow> Inl e
                | Inr v \<Rightarrow> Inr (st\<lparr>current_item := set_nutrient Proteins v (current_item st)\<rparr>))"
      by (simp add: process_line_def is_header_def nutrient_token_def split: sum.splits)
    then show ?thesis ..
  next
    case d
    with assms have "re_search (label Fats) (unit_of Fats) line = Some tok \<and>
             process_line now line st =
               (case py_float tok of
                  Inl e \<Rightarrow> Inl e
                | Inr v \<Rightarrow> Inr (st\<lparr>current_item := set_nutrient Fats v (current_item st)\<rparr>))"
      by (simp add: process_line_def is_header_def nutrient_token_def split: sum.splits)
    then show ?thesis ..
  next
    case e
    with assms show ?thesis
      by (simp add: nutrient_token_def)
  qed
qed

lemma py_float_cases:
  assumes "py_float tok = Inr v"
  shows "\<exists>x. 0 \<le> x \<and> v = round_double x"
proof -
  let ?ip = "takeWhile (\<lambda>c. c \<noteq> CHR ''.'') tok"
  let ?fp = "tl (dropWhile (\<lambda>c. c \<noteq> CHR ''.'') tok)"
  from assms have "v = round_double (real (digits_val ?ip))
      \<or> v = round_double (real (digits_val ?ip) + real (digits_val ?fp) / 10 ^ length ?fp)"
    unfolding py_float_def Let_def by (simp split: if_splits)
  moreover have "0 \<le> real (digits_val ?ip)"
    by simp
  moreover have "0 \<le> real (digits_val ?ip) + real (digits_val ?fp) / 10 ^ length ?fp"
    by simp
  ultimately show ?thesis
    by blast
qed

lemma py_float_nonneg: "py_float tok = Inr v \<Longrightarrow> 0 \<le> v"
  using py_float_cases [of tok v] round_double_nonneg by blast

lemma set_nutrient_not_empty: "set_nutrient f v item \<noteq> empty_item"
proof
  assume "set_nutrient f v item = empty_item"
  then have "nutrient_of f (set_nutrient f v item) = nutrient_of f empty_item"
    by simp
  then show False
    by (cases f) (simp_all add: empty_item_def)
qed

lemma set_nutrient_name [simp]:
  "name (set_nutrient f v item) = name item"
  "timestamp (set_nutrient f v item) = timestamp item"
  by (cases f; simp)+

lemma nutrient_of_set_other: "f \<noteq> f' \<Longrightarrow> nutrient_of f (set_nutrient f' v item) = nutrient_of f item"
  by (cases f; cases f'; simp)

lemma new_item_not_empty:
  "\<lparr>timestamp = Some ts, name = Some nm, calories = None, carbs = None, proteins = None,
     fats = None\<rparr> \<noteq> empty_item"
  by (simp add: empty_item_def)

text \<open>What one line that is not a header does to the state.\<close>

lemma process_line_body:
  assumes "\<not> is_header line" and "process_line now line st = Inr st'"
  shows "(nutrient_token line = None \<and> st' = st) \<or>
         (\<exists>f tok v. nutrient_token line = Some tok \<and> pattern_matches f line \<and>
            py_float tok = Inr v \<and>
            st' = st\<lparr>current_item := set_nutrient f v (current_item st)\<rparr>)"
proof (cases "nutrient_token line")
  case None
  with assms show ?thesis
    by (simp add: process_line_no_token)
next
  case (Some tok)
  from process_line_token [OF assms(1) Some, of now st] obtain f where
    m: "re_search (label f) (unit_of f) line = Some tok" and
    f: "process_line now line st =
               (case py_float tok of
                  Inl e \<Rightarrow> Inl e
                | Inr v \<Rightarrow> Inr (st\<lparr>current_item := set_nutrient f v (current_item st)\<rparr>))"
    by blast
  from f assms(2) obtain v where "py_float tok = Inr v"
    and "st' = st\<lparr>current_item := set_nutrient f v (current_item st)\<rparr>"
    by (auto split: sum.splits)
  with Some m show ?thesis
    by (auto simp: pattern_matches_def)
qed

lemma flush_eq: "flush items cur = items @ (if cur \<noteq> empty_item then [cur] else [])"
  by (simp add: flush_def)

section \<open>The loop\<close>

lemma parse_loop_returns:
  "list_all (\<lambda>line. is_header line \<or>
              (case nutrient_token line of
                 None \<Rightarrow> True
               | Some tok \<Rightarrow> py_float tok \<noteq> Inl ValueError)) lines \<Longrightarrow>
   \<exists>st'. parse_loop now lines st = Inr st'"
proof (induction lines arbitrary: st)
  case Nil
  then show ?case by simp
next
  case (Cons line lines)
  have "\<exists>st1. process_line now line st = Inr st1"
  proof (cases "is_header line")
    case True
    then show ?thesis by (simp add: process_line_header)
  next
    case False
    show ?thesis
    proof (cases "nutrient_token line")
      case None
      with False show ?thesis by (simp add: process_line_no_token)
    next
      case (Some tok)
      with False Cons.prems have ok: "py_float tok \<noteq> Inl ValueError"
        by simp
      have "\<exists>v. py_float tok = Inr v"
      proof (cases "py_float tok")
        case (Inl e)
        then have "e = ValueError"
          by (auto simp: py_float_def Let_def split: if_splits)
        with Inl ok show ?thesis by simp
      next
        case (Inr v)
        then show ?thesis by blast
      qed
      with process_line_token [OF False Some, of now st] show ?thesis
        by auto
    qed
  qed
  then obtain st1 where "process_line now line st = Inr st1" ..
  moreover from Cons.prems have "\<exists>st'. parse_loop now lines st1 = Inr st'"
    by (intro Cons.IH) simp
  ultimately show ?case by auto
qed

lemma map_upt_shift: "map f [0 ..< Suc n] = f 0 # map (\<lambda>k. f (Suc k)) [0 ..< n]"
  by (induction n) simp_all

lemma parse_loop_names:
  assumes "parse_loop now lines st = Inr st'" and "current_item st \<noteq> empty_item"
  shows "current_item st' \<noteq> empty_item
     \<and> map name (food_items st' @ [current_item st']) =
         map name (food_items st @ [current_item st]) @
         map (\<lambda>line. Some (item_name line)) (filter is_header lines)
     \<and> map timestamp (food_items st' @ [current_item st']) =
         map timestamp (food_items st @ [current_item st]) @
         map (\<lambda>k. Some (now (ticks st + k))) [0 ..< length (filter is_header lines)]"
  using assms
proof (induction lines arbitrary: st)
  case Nil
  then show ?case by simp
next
  case (Cons line lines)
  from Cons.prems(1) obtain st1 where
    st1: "process_line now line st = Inr st1" and rest: "parse_loop now lines st1 = Inr st'"
    by (auto split: sum.splits)
  show ?case
  proof (cases "is_header line")
    case True
    with st1 Cons.prems(2) have
      fi: "food_items st1 = food_items st @ [current_item st]" and
      cur: "current_item st1 = \<lparr>timestamp = Some (now (ticks st)), name = Some (item_name line),
             calories = None, carbs = None, proteins = None, fats = None\<rparr>" and
      tk: "ticks st1 = Suc (ticks st)"
      by (auto simp: process_line_header flush_def)
    have ne: "current_item st1 \<noteq> empty_item"
      by (simp add: cur new_item_not_empty)
    from Cons.IH [OF rest ne] True show ?thesis
      by (simp add: fi cur tk map_upt_shift del: upt_Suc)
  next
    case False
    from process_line_body [OF False st1] have
      "current_item st1 \<noteq> empty_item \<and> name (current_item st1) = name (current_item st)
       \<and> timestamp (current_item st1) = timestamp (current_item st)
       \<and> food_items st1 = food_items st \<and> ticks st1 = ticks st"
      using Cons.prems(2) by (auto simp: set_nutrient_not_empty)
    with Cons.IH [OF rest] False show ?thesis
      by simp
  qed
qed

lemma groups_nonempty: "groups lines \<noteq> []"
  by (induction lines) (auto split: list.splits)

lemma parse_loop_groups:
  assumes "parse_loop now lines st = Inr st'" and "groups lines = g # gs"
  shows "\<exists>r R. flush (food_items st') (current_item st') =
             food_items st @
             (if current_item st \<noteq> empty_item \<or> list_ex (\<lambda>l. nutrient_token l \<noteq> None) g
              then [r] else []) @ R
           \<and> list_all2 lacks_unmatched R gs
           \<and> (\<forall>f. (\<forall>l\<in>set g. \<not> pattern_matches f l) \<longrightarrow>
                  nutrient_of f r = nutrient_of f (current_item st))"
  using assms
proof (induction lines arbitrary: st g gs)
  case Nil
  then have "g = []" "gs = []" "st' = st"
    by simp_all
  then have "flush (food_items st') (current_item st') =
             food_items st @
             (if current_item st \<noteq> empty_item \<or> list_ex (\<lambda>l. nutrient_token l \<noteq> None) g
              then [current_item st] else []) @ []
           \<and> list_all2 lacks_unmatched [] gs
           \<and> (\<forall>f. (\<forall>l\<in>set g. \<not> pattern_matches f l) \<longrightarrow>
                  nutrient_of f (current_item st) = nutrient_of f (current_item st))"
    by (simp add: flush_eq)
  then show ?case by blast
next
  case (Cons line lines)
  from Cons.prems(1) obtain st1 where
    st1: "process_line now line st = Inr st1" and rest: "parse_loop now lines st1 = Inr st'"
    by (auto split: sum.splits)
  obtain g' gs' where gr: "groups lines = g' # gs'"
    using groups_nonempty [of lines] by (cases "groups lines") auto
  from Cons.IH [OF rest gr] obtain r1 R1 where
    fl: "flush (food_items st') (current_item st') =
             food_items st1 @
             (if current_item st1 \<noteq> empty_item \<or> list_ex (\<lambda>l. nutrient_token l \<noteq> None) g'
              then [r1] else []) @ R1" and
    la: "list_all2 lacks_unmatched R1 gs'" and
    r1: "\<forall>f. (\<forall>l\<in>set g'. \<not> pattern_matches f l) \<longrightarrow>
                  nutrient_of f r1 = nutrient_of f (current_item st1)"
    by blast
  show ?case
  proof (cases "is_header line")
    case True
    with Cons.prems(2) gr have g: "g = []" and gs: "gs = (line # g') # gs'"
      by simp_all
    from True st1 have
      fi: "food_items st1 = flush (food_items st) (current_item st)" and
      cur: "current_item st1 = \<lparr>timestamp = Some (now (ticks st)), name = Some (item_name line),
             calories = None, carbs = None, proteins = None, fats = None\<rparr>"
      by (auto simp: process_line_header)
    have ne: "current_item st1 \<noteq> empty_item"
      by (simp add: cur new_item_not_empty)
    have none: "nutrient_of f (current_item st1) = None" for f
      by (cases f) (simp_all add: cur)
    have "lacks_unmatched r1 (line # g')"
      using r1 by (simp add: lacks_unmatched_def none)
    with la have "list_all2 lacks_unmatched (r1 # R1) gs"
      by (simp add: gs)
    moreover have "flush (food_items st') (current_item st') =
             food_items st @
             (if current_item st \<noteq> empty_item \<or> list_ex (\<lambda>l. nutrient_token l \<noteq> None) g
              then [current_item st] else []) @ (r1 # R1)"
      using fl ne by (simp add: fi flush_eq g)
    ultimately show ?thesis
      by blast
  next
    case False
    with Cons.prems(2) gr have g: "g = line # g'" and gs: "gs = gs'"
      by simp_all
    from process_line_body [OF False st1] show ?thesis
    proof (elim disjE conjE exE)
      assume tok: "nutrient_token line = None" and same: "st1 = st"
      have "flush (food_items st') (current_item st') =
             food_items st @
             (if current_item st \<noteq> empty_item \<or> list_ex (\<lambda>l. nutrient_token l \<noteq> None) g
              then [r1] else []) @ R1"
        using fl by (simp add: same g tok)
      moreover have "\<forall>f. (\<forall>l\<in>set g. \<not> pattern_matches f l) \<longrightarrow>
                  nutrient_of f r1 = nutrient_of f (current_item st)"
        using r1 by (simp add: same g)
      ultimately show ?thesis
        using la gs by blast
    next
      fix f0 tok v
      assume tok: "nutrient_token line = Some tok" and pm: "pattern_matches f0 line"
        and upd: "st1 = st\<lparr>current_item := set_nutrient f0 v (current_item st)\<rparr>"
      have ne: "current_item st1 \<noteq> empty_item"
        by (simp add: upd set_nutrient_not_empty)
      have "flush (food_items st') (current_item st') =
             food_items st @
             (if current_item st \<noteq> empty_item \<or> list_ex (\<lambda>l. nutrient_token l \<noteq> None) g
              then [r1] else []) @ R1"
        using fl ne by (simp add: upd g tok)
      moreover have "\<forall>f. (\<forall>l\<in>set g. \<not> pattern_matches f l) \<longrightarrow>
                  nutrient_of f r1 = nutrient_of f (current_item st)"
      proof (intro allI impI)
        fix f
        assume no: "\<forall>l\<in>set g. \<not> pattern_matches f l"
        then have "f \<noteq> f0"
          using pm by (auto simp: g)
        then have "nutrient_of f (current_item st1) = nutrient_of f (current_item st)"
          by (simp add: upd nutrient_of_set_other)
        with r1 no show "nutrient_of f r1 = nutrient_of f (current_item st)"
          by (simp add: g)
      qed
      ultimately show ?thesis
        using la gs by blast
    qed
  qed
qed

lemma nonneg_empty: "nonneg_item empty_item"
  by (simp add: nonneg_item_def empty_item_def all_nutrients)

lemma nonneg_set_nutrient:
  "nonneg_item item \<Longrightarrow> 0 \<le> v \<Longrightarrow> nonneg_item (set_nutrient f v item)"
  by (cases f) (simp_all add: nonneg_item_def all_nutrients)

lemma nonneg_flush:
  "\<forall>it\<in>set items. nonneg_item it \<Longrightarrow> nonneg_item cur \<Longrightarrow>
   \<forall>it\<in>set (flush items cur). nonneg_item it"
  by (simp add: flush_def)

lemma process_line_nonneg:
  assumes "process_line now line st = Inr st'"
    and "\<forall>it\<in>set (food_items st). nonneg_item it" and "nonneg_item (current_item st)"
  shows "(\<forall>it\<in>set (food_items st'). nonneg_item it) \<and> nonneg_item (current_item st')"
proof (cases "is_header line")
  case True
  have "nonneg_item \<lparr>timestamp = Some (now (ticks st)), name = Some (item_name line),
             calories = None, carbs = None, proteins = None, fats = None\<rparr>"
    by (simp add: nonneg_item_def all_nutrients)
  with True assms nonneg_flush [OF assms(2,3)] show ?thesis
    by (auto simp: process_line_header)
next
  case False
  show ?thesis
  proof (cases "nutrient_token line")
    case None
    with False assms show ?thesis
      by (simp add: process_line_no_token)
  next
    case (Some tok)
    from process_line_token [OF False Some, of now st] obtain f where
      f: "process_line now line st =
               (case py_float tok of
                  Inl e \<Rightarrow> Inl e
                | Inr v \<Rightarrow> Inr (st\<lparr>current_item := set_nutrient f v (current_item st)\<rparr>))"
      by blast
    with assms(1) obtain v where v: "py_float tok = Inr v"
      and st': "st' = st\<lparr>current_item := set_nutrient f v (current_item st)\<rparr>"
      by (auto split: sum.splits)
    from v have "0 \<le> v"
      by (rule py_float_nonneg)
    with assms(2,3) st' show ?thesis
      by (simp add: nonneg_set_nutrient)
  qed
qed

lemma parse_loop_nonneg:
  "parse_loop now lines st = Inr st' \<Longrightarrow>
   \<forall>it\<in>set (food_items st). nonneg_item it \<Longrightarrow> nonneg_item (current_item st) \<Longrightarrow>
   (\<forall>it\<in>set (food_items st'). nonneg_item it) \<and> nonneg_item (current_item st')"
proof (induction lines arbitrary: st)
  case Nil
  then show ?case by simp
next
  case (Cons line lines)
  from Cons.prems(1) obtain st1 where
    st1: "process_line now line st = Inr st1" and rest: "parse_loop now lines st1 = Inr st'"
    by (auto split: sum.splits)
  from process_line_nonneg [OF st1 Cons.prems(2,3)] Cons.IH [OF rest]
  show ?case by blast
qed

section \<open>The Apple and Banana scenario\<close>

text \<open>
  C1. The scenario expects the two records named Apple and Banana to carry the numbers
  of their lines, and the totals 200, 52, 1.8 and 0.7. The parser does find the two
  names, in order. But a line that starts with the header marker takes the first branch
  of the \<^verbatim>\<open>if\<close>/\<^verbatim>\<open>elif\<close> chain only, so the nutrient patterns are never tried on it:
  the two records have no nutrient key at all, and the four totals over them are 0.
\<close>

theorem apple_banana_parse:
  "parse_gemini_response now apple_banana =
     Inr [\<lparr>timestamp = Some (now 0), name = Some ''Apple'', calories = None, carbs = None,
            proteins = None, fats = None\<rparr>,
          \<lparr>timestamp = Some (now 1), name = Some ''Banana'', calories = None, carbs = None,
            proteins = None, fats = None\<rparr>]
   \<and> summarize
        [\<lparr>timestamp = Some (now 0), name = Some ''Apple'', calories = None, carbs = None,
            proteins = None, fats = None\<rparr>,
          \<lparr>timestamp = Some (now 1), name = Some ''Banana'', calories = None, carbs = None,
            proteins = None, fats = None\<rparr>] =
       \<lparr>total_calories = 0, total_carbs = 0, total_proteins = 0, total_fats = 0\<rparr>"
  by (simp add: eval_defs apple_banana_def summarize_def py_sum_def get_or_def)

section \<open>The name of a record\<close>

text \<open>
  C2, as stated, gives the name \<^verbatim>\<open>Unknown\<close> to a header without the separator
  \<^verbatim>\<open>" - "\<close>. On the line \<^verbatim>\<open>- Item: MysteryFood\<close> the parser returns one record
  without nutrient keys whose name is \<^verbatim>\<open>MysteryFood\<close>: \<^verbatim>\<open>split(" - ")[0]\<close> of a
  text without the separator is the whole text, and raises nothing.
\<close>

theorem mystery_food_counterexample:
  "startswith ''- Item: MysteryFood'' ''- Item:''
   \<and> parse_gemini_response clock0 ''- Item: MysteryFood'' =
     Inr [\<lparr>timestamp = Some (clock0 0), name = Some ''MysteryFood'', calories = None,
            carbs = None, proteins = None, fats = None\<rparr>]
   \<and> ''MysteryFood'' \<noteq> ''Unknown''"
  by (simp add: eval_defs)

text \<open>
  C2, amended. A line that begins with \<^verbatim>\<open>- Item:\<close> makes a new record without
  nutrient keys, stamped with the current time. Its name is \<^verbatim>\<open>Unknown\<close> when the line
  does not contain \<^verbatim>\<open>"Item: "\<close> (the marker followed by a space). Otherwise take the
  text after the first \<^verbatim>\<open>"Item: "\<close>, up to the next \<^verbatim>\<open>"Item: "\<close> or else to the end
  of the line: the name is that text up to its first \<^verbatim>\<open>" - "\<close>, and the whole of it
  when it has none. Parsing the single line \<^verbatim>\<open>- Item: MysteryFood\<close> yields one record
  named \<^verbatim>\<open>MysteryFood\<close> with no nutrient key.
\<close>

theorem header_line_name:
  assumes "startswith line ''- Item:''"
  shows "(\<exists>st'. process_line now line st = Inr st'
           \<and> name (current_item st') =
               Some (case find_str line ''Item: '' of
                       None \<Rightarrow> ''Unknown''
                     | Some i \<Rightarrow>
                         (let rest = drop (i + 6) line;
                              seg = (case find_str rest ''Item: '' of
                                       None \<Rightarrow> rest
                                     | Some j \<Rightarrow> take j rest)
                          in case find_str seg '' - '' of
                               None \<Rightarrow> seg
                             | Some k \<Rightarrow> take k seg))
           \<and> timestamp (current_item st') = Some (now (ticks st))
           \<and> calories (current_item st') = None \<and> carbs (current_item st') = None
           \<and> proteins (current_item st') = None \<and> fats (current_item st') = None)
     \<and> parse_gemini_response now ''- Item: MysteryFood'' =
         Inr [\<lparr>timestamp = Some (now 0), name = Some ''MysteryFood'', calories = None,
                carbs = None, proteins = None, fats = None\<rparr>]"
proof -
  have "is_header line"
    using assms by (simp add: is_header_def)
  then have "\<exists>st'. process_line now line st = Inr st'
           \<and> name (current_item st') =
               Some (case find_str line ''Item: '' of
                       None \<Rightarrow> ''Unknown''
                     | Some i \<Rightarrow>
                         (let rest = drop (i + 6) line;
                              seg = (case find_str rest ''Item: '' of
                                       None \<Rightarrow> rest
                                     | Some j \<Rightarrow> take j rest)
                          in case find_str seg '' - '' of
                               None \<Rightarrow> seg
                             | Some k \<Rightarrow> take k seg))
           \<and> timestamp (current_item st') = Some (now (ticks st))
           \<and> calories (current_item st') = None \<and> carbs (current_item st') = None
           \<and> proteins (current_item st') = None \<and> fats (current_item st') = None"
    by (simp add: process_line_header item_name_find)
  moreover have "parse_gemini_response now ''- Item: MysteryFood'' =
         Inr [\<lparr>timestamp = Some (now 0), name = Some ''MysteryFood'', calories = None,
                carbs = None, proteins = None, fats = None\<rparr>]"
    by (simp add: eval_defs)
  ultimately show ?thesis
    by (rule conjI)
qed

theorem header_line_name_witness:
  "startswith ''- Item: MysteryFood'' ''- Item:''
   \<and> (\<exists>st'. process_line clock0 ''- Item: MysteryFood''
               \<lparr>food_items = [], current_item = empty_item, ticks = 0\<rparr> = Inr st'
            \<and> name (current_item st') = Some ''MysteryFood''
            \<and> calories (current_item st') = None \<and> carbs (current_item st') = None
            \<and> proteins (current_item st') = None \<and> fats (current_item st') = None)"
proof -
  have h: "startswith ''- Item: MysteryFood'' ''- Item:''"
    by simp
  show ?thesis
    using h header_line_name [OF h, of clock0 "\<lparr>food_items = [], current_item = empty_item, ticks = 0\<rparr>"]
    by auto
qed

section \<open>Totality\<close>

text \<open>
  C3. The parser is claimed never to raise. The pattern \<^verbatim>\<open>[\d.]+\<close> also accepts
  tokens that \<^verbatim>\<open>float\<close> rejects, such as \<^verbatim>\<open>1.2.3\<close>; the conversion is not guarded, so
  on the input below the parser raises \<^verbatim>\<open>ValueError\<close> instead of returning records.
\<close>

theorem malformed_number_raises:
  "parse_gemini_response now ''Calories: 1.2.3 kcal'' = Inl ValueError"
  by (simp add: eval_defs)

section \<open>Input without a header\<close>

text \<open>
  C4. On an input in which no line starts with \<^verbatim>\<open>- Item:\<close> the parser is claimed to
  return the empty sequence. A nutrient line met before any header is written into the
  placeholder dict the loop starts with; the placeholder is then no longer empty and the
  final \<^verbatim>\<open>if current_item\<close> appends it. On the input \<^verbatim>\<open>Calories: 95 kcal\<close> the parser
  returns one record, which has the calories and neither name nor timestamp, although every
  record the parser itself opens is given both.
\<close>

theorem orphan_field_record:
  "split_str ''Calories: 95 kcal'' [CHR 0x0A] = [''Calories: 95 kcal'']
   \<and> \<not> startswith ''Calories: 95 kcal'' ''- Item:''
   \<and> parse_gemini_response now ''Calories: 95 kcal'' =
       Inr [\<lparr>timestamp = None, name = None, calories = Some 95, carbs = None,
              proteins = None, fats = None\<rparr>]"
  by (simp add: eval_defs)

section \<open>One record per header\<close>

text \<open>
  C5. For every well-formed block the parser returns, and returns one record per line
  that starts with \<^verbatim>\<open>- Item:\<close>, in the order of these lines: the names of the records
  are the names of the header lines in order, and the records are stamped by the
  successive readings of the clock.
\<close>

theorem well_formed_one_per_header:
  assumes "well_formed_block text"
  shows "\<exists>items. parse_gemini_response now text = Inr items
     \<and> length items = length (filter is_header (split_str text [CHR 0x0A]))
     \<and> map name items =
         map (\<lambda>line. Some (item_name line)) (filter is_header (split_str text [CHR 0x0A]))
     \<and> map timestamp items = map (\<lambda>k. Some (now k)) [0 ..< length items]"
proof -
  let ?init = "\<lparr>food_items = [], current_item = empty_item, ticks = 0\<rparr>"
  from assms obtain first rest where
    lines: "split_str text [CHR 0x0A] = first # rest" and first: "is_header first" and
    rest: "list_all (\<lambda>line. is_header line \<or>
              (case nutrient_token line of
                 None \<Rightarrow> True
               | Some tok \<Rightarrow> py_float tok \<noteq> Inl ValueError)) rest"
    by (auto simp: well_formed_block_def split: list.splits)
  define st1 where "st1 = \<lparr>food_items = [],
      current_item = \<lparr>timestamp = Some (now 0), name = Some (item_name first),
             calories = None, carbs = None, proteins = None, fats = None\<rparr>,
      ticks = Suc 0\<rparr>"
  have p1: "process_line now first ?init = Inr st1"
    using first by (simp add: process_line_header flush_def st1_def)
  from parse_loop_returns [OF rest] obtain st' where
    st': "parse_loop now rest st1 = Inr st'" by blast
  have ne: "current_item st1 \<noteq> empty_item"
    by (simp add: st1_def new_item_not_empty)
  note n = parse_loop_names [OF st' ne]
  define items where "items = food_items st' @ [current_item st']"
  have res: "parse_gemini_response now text = Inr items"
    using p1 st' n by (simp add: parse_gemini_response_def Let_def lines flush_def items_def)
  have names: "map name items =
         map (\<lambda>line. Some (item_name line)) (filter is_header (split_str text [CHR 0x0A]))"
    using n first by (simp add: items_def lines st1_def)
  have len: "length items = Suc (length (filter is_header rest))"
    using arg_cong [OF names, of length] first by (simp add: lines)
  have "map timestamp items =
          Some (now 0) # map (\<lambda>k. Some (now (Suc k))) [0 ..< length (filter is_header rest)]"
    using n by (simp add: items_def st1_def)
  also have "\<dots> = map (\<lambda>k. Some (now k)) [0 ..< length items]"
    by (simp only: len map_upt_shift)
  finally have stamps: "map timestamp items = map (\<lambda>k. Some (now k)) [0 ..< length items]" .
  have "length items = length (filter is_header (split_str text [CHR 0x0A]))"
    using len first by (simp add: lines)
  with res names stamps show ?thesis
    by blast
qed

theorem well_formed_one_per_header_witness:
  "well_formed_block apple_banana
   \<and> (\<exists>items. parse_gemini_response clock0 apple_banana = Inr items
        \<and> length items = 2
        \<and> map name items = [Some ''Apple'', Some ''Banana''])"
proof -
  have h: "well_formed_block apple_banana"
    by (simp add: well_formed_block_def apple_banana_def is_header_def)
  have f: "filter is_header (split_str apple_banana [CHR 0x0A]) =
     [''- Item: Apple - Calories: 95 kcal, Carbs: 25 g, Proteins: 0.5 g, Fats: 0.3 g'',
      ''- Item: Banana - Calories: 105 kcal, Carbs: 27 g, Proteins: 1.3 g, Fats: 0.4 g'']"
    by (simp add: apple_banana_def is_header_def)
  have n:
    "item_name ''- Item: Apple - Calories: 95 kcal, Carbs: 25 g, Proteins: 0.5 g, Fats: 0.3 g'' =
       ''Apple''"
    "item_name ''- Item: Banana - Calories: 105 kcal, Carbs: 27 g, Proteins: 1.3 g, Fats: 0.4 g'' =
       ''Banana''"
    by (simp_all add: item_name_def index_def)
  show ?thesis
    using h well_formed_one_per_header [OF h, of clock0]
    by (auto simp: f n)
qed

section \<open>Summaries\<close>



section \<open>The stored state\<close>

text \<open>
  C7. Extending a log by new items gives a log whose length is the sum of the two
  lengths, whose first part is the old log, record by record and in the old order, and
  whose remaining part is the new items in their order. \<^verbatim>\<open>analyze_food\<close> does extend
  the stored log in this way: for an image of at most 5 MB and a non-empty reply that the
  parser accepts, it answers, and the log it leaves is the old log followed by the parsed
  items, with the old records unchanged and in their order. When it fails, the log is the
  old one.
\<close>

theorem append_preserves_log:
  "length (list_extend old_log items) = length old_log + length items
   \<and> take (length old_log) (list_extend old_log items) = old_log
   \<and> drop (length old_log) (list_extend old_log items) = items
   \<and> (case analyze_food now file reply st of
        (Inl e, st') \<Rightarrow> food_log st' = food_log st
      | (Inr r, st') \<Rightarrow>
          food_log st' = list_extend (food_log st) (new_items r)
          \<and> reply \<noteq> None
          \<and> parse_gemini_response now (the reply) = Inr (new_items r))
   \<and> (content_type file = Some ct \<and> startswith ct ''image/''
        \<and> content_len file \<le> 5 * 1024 * 1024
        \<and> reply = Some body \<and> body \<noteq> []
        \<and> parse_gemini_response now body = Inr parsed \<longrightarrow>
      (\<exists>r st'. analyze_food now file reply st = (Inr r, st')
         \<and> new_items r = parsed
         \<and> full_log r = food_log st'
         \<and> food_log st' = food_log st @ parsed
         \<and> length (food_log st') = length (food_log st) + length parsed
         \<and> take (length (food_log st)) (food_log st') = food_log st
         \<and> drop (length (food_log st)) (food_log st') = parsed
         \<and> chat_history st' = chat_history st))"
proof (intro conjI impI)
  show "length (list_extend old_log items) = length old_log + length items"
    by (simp add: list_extend_def)
  show "take (length old_log) (list_extend old_log items) = old_log"
    by (simp add: list_extend_def)
  show "drop (length old_log) (list_extend old_log items) = items"
    by (simp add: list_extend_def)
  show "case analyze_food now file reply st of
        (Inl e, st') \<Rightarrow> food_log st' = food_log st
      | (Inr r, st') \<Rightarrow>
          food_log st' = list_extend (food_log st) (new_items r)
          \<and> reply \<noteq> None
          \<and> parse_gemini_response now (the reply) = Inr (new_items r)"
    by (simp add: list_extend_def analyze_food_def Let_def split: option.splits sum.splits)
next
  assume h: "content_type file = Some ct \<and> startswith ct ''image/''
        \<and> content_len file \<le> 5 * 1024 * 1024
        \<and> reply = Some body \<and> body \<noteq> []
        \<and> parse_gemini_response now body = Inr parsed"
  define st' where "st' = st\<lparr>food_log := food_log st @ parsed\<rparr>"
  define r where "r = \<lparr>analysis_text = body, new_items = parsed, full_log = food_log st',
                        totals = summarize (food_log st')\<rparr>"
  from h have "analyze_food now file reply st = (Inr r, st')"
    by (simp add: analyze_food_def list_extend_def Let_def r_def st'_def)
  moreover have "new_items r = parsed" "full_log r = food_log st'"
    by (simp_all add: r_def)
  moreover have "food_log st' = food_log st @ parsed" "chat_history st' = chat_history st"
    by (simp_all add: st'_def)
  ultimately show "\<exists>r st'. analyze_food now file reply st = (Inr r, st')
         \<and> new_items r = parsed
         \<and> full_log r = food_log st'
         \<and> food_log st' = food_log st @ parsed
         \<and> length (food_log st') = length (food_log st) + length parsed
         \<and> take (length (food_log st)) (food_log st') = food_log st
         \<and> drop (length (food_log st)) (food_log st') = parsed
         \<and> chat_history st' = chat_history st"
    by (intro exI [of _ r] exI [of _ st']) simp
qed

theorem append_preserves_log_witness:
  "\<exists>r st'. analyze_food clock0 \<lparr>content_type = Some ''image/png'', content_len = 2048\<rparr>
              (Some apple_banana)
              \<lparr>food_log = [empty_item\<lparr>calories := Some 100\<rparr>], chat_history = []\<rparr> = (Inr r, st')
     \<and> food_log st' =
         [empty_item\<lparr>calories := Some 100\<rparr>,
          \<lparr>timestamp = Some (clock0 0), name = Some ''Apple'', calories = None, carbs = None,
            proteins = None, fats = None\<rparr>,
          \<lparr>timestamp = Some (clock0 1), name = Some ''Banana'', calories = None, carbs = None,
            proteins = None, fats = None\<rparr>]
     \<and> length (food_log st') = 1 + 2"
proof -
  let ?file = "\<lparr>content_type = Some ''image/png'', content_len = 2048\<rparr>"
  let ?st = "\<lparr>food_log = [empty_item\<lparr>calories := Some 100\<rparr>], chat_history = []\<rparr>"
  let ?new = "[\<lparr>timestamp = Some (clock0 0), name = Some ''Apple'', calories = None,
                 carbs = None, proteins = None, fats = None\<rparr>,
               \<lparr>timestamp = Some (clock0 1), name = Some ''Banana'', calories = None,
                 carbs = None, proteins = None, fats = None\<rparr>]"
  have p: "parse_gemini_response clock0 apple_banana = Inr ?new"
    by (simp add: eval_defs apple_banana_def)
  have h: "content_type ?file = Some ''image/png'' \<and> startswith ''image/png'' ''image/''
        \<and> content_len ?file \<le> 5 * 1024 * 1024
        \<and> Some apple_banana = Some apple_banana \<and> apple_banana \<noteq> []
        \<and> parse_gemini_response clock0 apple_banana = Inr ?new"
    using p by (simp add: apple_banana_def)
  from append_preserves_log [THEN conjunct2, THEN conjunct2, THEN conjunct2, THEN conjunct2,
      rule_format, OF h, of ?st]
  have "\<exists>r st'. analyze_food clock0 ?file (Some apple_banana) ?st = (Inr r, st')
         \<and> new_items r = ?new
         \<and> full_log r = food_log st'
         \<and> food_log st' = food_log ?st @ ?new
         \<and> length (food_log st') = length (food_log ?st) + length ?new
         \<and> take (length (food_log ?st)) (food_log st') = food_log ?st
         \<and> drop (length (food_log ?st)) (food_log st') = ?new
         \<and> chat_history st' = chat_history ?st"
    by blast
  then show ?thesis
    by auto
qed

section \<open>Absent keys\<close>

text \<open>
  C8. Whenever the parser returns, its records correspond one to one, in order, to the
  groups of lines they were built from. A nutrient whose pattern matches no line of the
  group of a record is absent from that record: the key is not there, it is not set to
  zero. It counts as 0 only in the totals that \<open>summarize\<close> computes.
\<close>

theorem unmatched_fields_absent:
  assumes "parse_gemini_response now text = Inr items"
  shows "length items = length (record_groups (split_str text [CHR 0x0A]))
     \<and> (\<forall>k<length items. \<forall>f.
           (\<forall>line\<in>set (record_groups (split_str text [CHR 0x0A]) ! k).
               \<not> pattern_matches f line) \<longrightarrow>
           nutrient_of f (items ! k) = None \<and> total_of f (summarize [items ! k]) = 0)"
proof -
  let ?init = "\<lparr>food_items = [], current_item = empty_item, ticks = 0\<rparr>"
  let ?lines = "split_str text [CHR 0x0A]"
  from assms obtain st where
    st: "parse_loop now ?lines ?init = Inr st"
    and items: "items = flush (food_items st) (current_item st)"
    by (auto simp: parse_gemini_response_def Let_def split: sum.splits)
  obtain g gs where gr: "groups ?lines = g # gs"
    using groups_nonempty [of ?lines] by (cases "groups ?lines") auto
  from parse_loop_groups [OF st gr] obtain r R where
    fl: "items = (if list_ex (\<lambda>l. nutrient_token l \<noteq> None) g then [r] else []) @ R" and
    la: "list_all2 lacks_unmatched R gs" and
    r: "\<forall>f. (\<forall>l\<in>set g. \<not> pattern_matches f l) \<longrightarrow> nutrient_of f r = nutrient_of f empty_item"
    by (auto simp: items)
  have "nutrient_of f empty_item = None" for f
    by (cases f) (simp_all add: empty_item_def)
  with r have "lacks_unmatched r g"
    by (simp add: lacks_unmatched_def)
  with la have all: "list_all2 lacks_unmatched items (record_groups ?lines)"
    by (simp add: fl record_groups_def gr)
  have zero: "nutrient_of f item = None \<Longrightarrow> total_of f (summarize [item]) = 0" for f item
    by (simp add: total_of_summarize py_sum_def)
  from all have "length items = length (record_groups ?lines)"
    by (rule list_all2_lengthD)
  moreover from all have "lacks_unmatched (items ! k) (record_groups ?lines ! k)"
    if "k < length items" for k
    using that by (rule list_all2_nthD)
  ultimately show ?thesis
    by (auto simp: lacks_unmatched_def zero)
qed

theorem unmatched_fields_absent_witness:
  "record_groups (split_str oats_block [CHR 0x0A]) =
     [[''- Item: Oats - one bowl'', ''  Calories: 150.5 kcal'', ''  Carbs: 27 g''],
      [''- Item: Egg - boiled'', ''  Proteins: 6.5 g'']]
   \<and> \<not> pattern_matches Proteins ''- Item: Oats - one bowl''
   \<and> \<not> pattern_matches Proteins ''  Calories: 150.5 kcal''
   \<and> \<not> pattern_matches Proteins ''  Carbs: 27 g''
   \<and> (\<exists>items. parse_gemini_response clock0 oats_block = Inr items
         \<and> length items = 2
         \<and> proteins (items ! 0) = None
         \<and> total_proteins (summarize [items ! 0]) = 0)"
proof -
  let ?oats = "\<lparr>timestamp = Some (clock0 0), name = Some ''Oats'', calories = Some (301 / 2),
            carbs = Some 27, proteins = None, fats = None\<rparr>"
  let ?egg = "\<lparr>timestamp = Some (clock0 1), name = Some ''Egg'', calories = None,
            carbs = None, proteins = Some (13 / 2), fats = None\<rparr>"
  have p: "parse_gemini_response clock0 oats_block = Inr [?oats, ?egg]"
    by (simp add: eval_defs oats_block_def round_double_halves)
  have g: "record_groups (split_str oats_block [CHR 0x0A]) =
     [[''- Item: Oats - one bowl'', ''  Calories: 150.5 kcal'', ''  Carbs: 27 g''],
      [''- Item: Egg - boiled'', ''  Proteins: 6.5 g'']]"
    by (simp add: record_groups_def oats_block_def is_header_def)
  have m: "\<forall>line\<in>set [''- Item: Oats - one bowl'', ''  Calories: 150.5 kcal'', ''  Carbs: 27 g''].
         \<not> pattern_matches Proteins line"
    by (simp add: pattern_matches_def match_at_def)
  have "proteins ([?oats, ?egg] ! 0) = None
          \<and> total_proteins (summarize [[?oats, ?egg] ! 0]) = 0"
    using unmatched_fields_absent [OF p, THEN conjunct2, rule_format, of 0 Proteins] m
    by (simp add: g)
  with p g m show ?thesis
    by simp
qed

section \<open>Signs\<close>

text \<open>
  C9. Every nutrient value that is present on a record returned by the parser is
  non-negative.
\<close>

theorem parsed_fields_nonneg:
  assumes "parse_gemini_response now text = Inr items"
    and "item \<in> set items" and "nutrient_of f item = Some v"
  shows "0 \<le> v"
proof -
  let ?init = "\<lparr>food_items = [], current_item = empty_item, ticks = 0\<rparr>"
  from assms(1) obtain st where
    st: "parse_loop now (split_str text [CHR 0x0A]) ?init = Inr st"
    and items: "items = flush (food_items st) (current_item st)"
    by (auto simp: parse_gemini_response_def Let_def split: sum.splits)
  have "(\<forall>it\<in>set (food_items st). nonneg_item it) \<and> nonneg_item (current_item st)"
    by (rule parse_loop_nonneg [OF st]) (simp_all add: nonneg_empty)
  then have "\<forall>it\<in>set items. nonneg_item it"
    by (simp add: items flush_def)
  with assms(2,3) show ?thesis
    by (auto simp: nonneg_item_def)
qed

theorem parsed_fields_nonneg_witness:
  "parse_gemini_response clock0 oats_block =
     Inr [\<lparr>timestamp = Some (clock0 0), name = Some ''Oats'', calories = Some (301 / 2),
            carbs = Some 27, proteins = None, fats = None\<rparr>,
          \<lparr>timestamp = Some (clock0 1), name = Some ''Egg'', calories = None,
            carbs = None, proteins = Some (13 / 2), fats = None\<rparr>]
   \<and> (0::real) \<le> 301 / 2"
proof -
  let ?oats = "\<lparr>timestamp = Some (clock0 0), name = Some ''Oats'', calories = Some (301 / 2),
            carbs = Some 27, proteins = None, fats = None\<rparr>"
  let ?egg = "\<lparr>timestamp = Some (clock0 1), name = Some ''Egg'', calories = None,
            carbs = None, proteins = Some (13 / 2), fats = None\<rparr>"
  have p: "parse_gemini_response clock0 oats_block = Inr [?oats, ?egg]"
    by (simp add: eval_defs oats_block_def round_double_halves)
  have "?oats \<in> set [?oats, ?egg]"
    by simp
  moreover have "nutrient_of Calories ?oats = Some (301 / 2)"
    by simp
  ultimately have "(0::real) \<le> 301 / 2"
    by (rule parsed_fields_nonneg [OF p])
  with p show ?thesis
    by simp
qed

section \<open>Queries\<close>

text \<open>
  C10. The two queries return the state they were given. A chat turn leaves the food
  log as it was, and an analysis leaves the chat history as it was; after an analysis
  the food log is either unchanged or the old log extended by the parsed items.
\<close>

theorem queries_leave_state:
  "snd (get_food_log st) = st
   \<and> snd (get_chat_history st) = st
   \<and> food_log (snd (chat_with_nutritionist message reply st)) = food_log st
   \<and> chat_history (snd (analyze_food now file reply st)) = chat_history st
   \<and> (food_log (snd (analyze_food now file reply st)) = food_log st
      \<or> (\<exists>text items. reply = Some text \<and> parse_gemini_response now text = Inr items
            \<and> food_log (snd (analyze_food now file reply st)) =
                list_extend (food_log st) items))"
  by (simp add: get_food_log_def get_chat_history_def chat_with_nutritionist_def
      analyze_food_def Let_def split: option.splits sum.splits)

end
